theory Spec2Isabelle
  imports Main "HOL-Library.Multiset"
begin

unbundle bit_operations_syntax

section \<open>Benchmark labs: Fibonacci algorithms, sorting algorithms, timing harness\<close>

text \<open>
  A shallow embedding of \<^verbatim>\<open>Lab1/scripts/generate_results.py\<close> (five Fibonacci
  implementations and their timing harness) and \<^verbatim>\<open>Lab2/scripts/generate_results.py\<close>
  (four sorting algorithms and their timing harness).

  Python integers are unbounded and are modelled as \<open>int\<close>; loop counters and list
  indices that the source keeps non-negative are \<open>nat\<close>. A call of a Python function
  has one of three outcomes: it returns a value, it raises an exception, or it never
  comes back. The depth of the interpreter's stack and the size of its memory are
  resources outside the model: a recursion or a list is as large as the computation
  makes it.
\<close>

datatype py_error =
    IndexError | KeyError | ZeroDivisionError | RecursionError
  | FileNotFoundError | FileExistsError | IsADirectoryError | NotADirectoryError

datatype 'a outcome = Returns 'a | Raises py_error | Diverges

subsection \<open>The world the harness runs in\<close>

text \<open>
  \<^verbatim>\<open>time.perf_counter()\<close> is modelled by a given sequence of readings \<open>clk\<close>: the
  \<open>k\<close>-th call of the process returns \<open>clk k\<close>. The world counts the readings taken so
  far, logs every invocation of a benchmarked algorithm with the argument value it
  received, and holds the list objects of the process: an object's address is its index in
  \<open>heap\<close>, and allocating a list appends it.
\<close>

record 'c world =
  ticks :: nat
  calls :: "'c list"
  heap :: "int list list"

definition perf_counter :: "(nat \<Rightarrow> 't) \<Rightarrow> 'c world \<Rightarrow> 't \<times> 'c world" where
  "perf_counter clk w = (clk (ticks w), w\<lparr>ticks := ticks w + 1\<rparr>)"

definition REPEATS :: nat where
  "REPEATS = 3"

text \<open>\<^verbatim>\<open>if best is None or elapsed < best: best = elapsed\<close>\<close>

definition keep_best :: "('t::ord) option \<Rightarrow> 't \<Rightarrow> 't option" where
  "keep_best best elapsed =
     (case best of None \<Rightarrow> Some elapsed
      | Some b \<Rightarrow> if elapsed < b then Some elapsed else Some b)"

subsection \<open>Lab 1: \<^verbatim>\<open>time_run(fn, n)\<close>\<close>

text \<open>One pass of the loop body: read the clock, call \<open>fn n\<close> and drop what it returns,
  read the clock again, update \<open>best\<close>. An exception of \<open>fn\<close> leaves the loop, and a call
  that never comes back blocks it.\<close>

definition trial_lab1 ::
  "(nat \<Rightarrow> 't::{minus,ord}) \<Rightarrow> ('i \<Rightarrow> 'o outcome) \<Rightarrow> 'i \<Rightarrow> 't option \<times> 'i world
     \<Rightarrow> ('t option \<times> 'i world) outcome" where
  "trial_lab1 clk fn n st =
     (case st of (best, w) \<Rightarrow>
        (case perf_counter clk w of (start, w1) \<Rightarrow>
           (case fn n of
              Raises e \<Rightarrow> Raises e
            | Diverges \<Rightarrow> Diverges
            | Returns _ \<Rightarrow>
                (case perf_counter clk (w1\<lparr>calls := calls w1 @ [n]\<rparr>) of (stop, w3) \<Rightarrow>
                   Returns (keep_best best (stop - start), w3)))))"

fun trials_lab1 ::
  "(nat \<Rightarrow> 't::{minus,ord}) \<Rightarrow> ('i \<Rightarrow> 'o outcome) \<Rightarrow> 'i \<Rightarrow> nat \<Rightarrow> 't option \<times> 'i world
     \<Rightarrow> ('t option \<times> 'i world) outcome" where
  "trials_lab1 clk fn n 0 st = Returns st"
| "trials_lab1 clk fn n (Suc k) st =
     (case trial_lab1 clk fn n st of
        Raises e \<Rightarrow> Raises e
      | Diverges \<Rightarrow> Diverges
      | Returns st' \<Rightarrow> trials_lab1 clk fn n k st')"

definition time_run_lab1 ::
  "(nat \<Rightarrow> 't::{minus,ord}) \<Rightarrow> ('i \<Rightarrow> 'o outcome) \<Rightarrow> 'i \<Rightarrow> 'i world
     \<Rightarrow> ('t option \<times> 'i world) outcome" where
  "time_run_lab1 clk fn n w = trials_lab1 clk fn n REPEATS (None, w)"

subsection \<open>Lab 2: \<^verbatim>\<open>time_run(fn, arr)\<close>\<close>

text \<open>
  Here the argument is a list object, given by its address \<open>arr\<close>. Each pass first
  allocates \<^verbatim>\<open>data = arr[:]\<close>, a new object with the same elements, and calls \<open>fn\<close> on
  that. An algorithm receives the address and the heap, and returns the address of its
  result with the heap it leaves. The log keeps the elements the algorithm was given.
\<close>

type_synonym addr = nat

type_synonym sorter = "addr \<Rightarrow> int list list \<Rightarrow> (addr \<times> int list list) outcome"

definition copy_list :: "addr \<Rightarrow> int list list \<Rightarrow> addr \<times> int list list" where
  "copy_list a h = (length h, h @ [h ! a])"

definition trial_lab2 ::
  "(nat \<Rightarrow> 't::{minus,ord}) \<Rightarrow> sorter \<Rightarrow> addr \<Rightarrow> 't option \<times> int list world
     \<Rightarrow> ('t option \<times> int list world) outcome" where
  "trial_lab2 clk fn arr st =
     (case st of (best, w) \<Rightarrow>
        (case copy_list arr (heap w) of (data, h1) \<Rightarrow>
           (case perf_counter clk (w\<lparr>heap := h1\<rparr>) of (start, w1) \<Rightarrow>
              (case fn data (heap w1) of
                 Raises e \<Rightarrow> Raises e
               | Diverges \<Rightarrow> Diverges
               | Returns (_, h2) \<Rightarrow>
                   (case perf_counter clk (w1\<lparr>calls := calls w1 @ [heap w1 ! data], heap := h2\<rparr>)
                    of (stop, w3) \<Rightarrow> Returns (keep_best best (stop - start), w3))))))"

fun trials_lab2 ::
  "(nat \<Rightarrow> 't::{minus,ord}) \<Rightarrow> sorter \<Rightarrow> addr \<Rightarrow> nat \<Rightarrow> 't option \<times> int list world
     \<Rightarrow> ('t option \<times> int list world) outcome" where
  "trials_lab2 clk fn arr 0 st = Returns st"
| "trials_lab2 clk fn arr (Suc k) st =
     (case trial_lab2 clk fn arr st of
        Raises e \<Rightarrow> Raises e
      | Diverges \<Rightarrow> Diverges
      | Returns st' \<Rightarrow> trials_lab2 clk fn arr k st')"

definition time_run_lab2 ::
  "(nat \<Rightarrow> 't::{minus,ord}) \<Rightarrow> sorter \<Rightarrow> addr \<Rightarrow> int list world
     \<Rightarrow> ('t option \<times> int list world) outcome" where
  "time_run_lab2 clk fn arr w = trials_lab2 clk fn arr REPEATS (None, w)"

section \<open>Lab 1: five ways to compute a Fibonacci number\<close>

text \<open>The \<open>n\<close>-th Fibonacci number, as the reference the implementations are compared
  with: \<open>F 0 = 0\<close>, \<open>F 1 = 1\<close>, \<open>F (n + 2) = F (n + 1) + F n\<close>.\<close>

fun fibonacci :: "nat \<Rightarrow> int" where
  "fibonacci 0 = 0"
| "fibonacci (Suc 0) = 1"
| "fibonacci (Suc (Suc n)) = fibonacci (Suc n) + fibonacci n"

text \<open>\<^verbatim>\<open>fib_iterative\<close>: \<^verbatim>\<open>range(n)\<close> runs the body \<open>nat n\<close> times (not at all for a
  negative \<open>n\<close>).\<close>

definition fib_iterative :: "int \<Rightarrow> int" where
  "fib_iterative n = fst (((\<lambda>(a, b). (b, a + b)) ^^ nat n) (0, 1))"

text \<open>
  \<^verbatim>\<open>fib_memoized\<close>: the dictionary \<^verbatim>\<open>memo\<close> is a map, the stack a list whose last element
  is the top (\<^verbatim>\<open>pop\<close> takes it, \<^verbatim>\<open>append\<close> adds one). The \<^verbatim>\<open>while stack\<close> loop may run
  for ever, so it is a partial function: \<open>None\<close> stands for a loop that never ends.
  \<^verbatim>\<open>memo[k1] + memo[k2]\<close> is read only under the test that both keys are present; the
  final \<^verbatim>\<open>memo[n]\<close> raises \<^verbatim>\<open>KeyError\<close> on a missing key.
\<close>

partial_function (option) memo_loop :: "(int \<rightharpoonup> int) \<Rightarrow> int list \<Rightarrow> (int \<rightharpoonup> int) option" where
  "memo_loop memo stack =
     (if stack = [] then Some memo
      else
        let k = last stack; stack = butlast stack in
        if memo k \<noteq> None then memo_loop memo stack
        else
          let k1 = k - 1; k2 = k - 2 in
          if memo k1 \<noteq> None \<and> memo k2 \<noteq> None
          then memo_loop (memo(k \<mapsto> the (memo k1) + the (memo k2))) stack
          else memo_loop memo
                 (stack @ [k] @ (if memo k1 = None then [k1] else [])
                              @ (if memo k2 = None then [k2] else [])))"

declare memo_loop.simps [code]

definition fib_memoized :: "int \<Rightarrow> int outcome" where
  "fib_memoized n =
     (if n < 2 then Returns n
      else
        case memo_loop [0 \<mapsto> 0, 1 \<mapsto> 1] [n] of
          None \<Rightarrow> Diverges
        | Some memo \<Rightarrow> (case memo n of None \<Rightarrow> Raises KeyError | Some v \<Rightarrow> Returns v))"

text \<open>
  \<^verbatim>\<open>fib_fast_doubling\<close>: the inner \<^verbatim>\<open>solve\<close> calls itself on \<^verbatim>\<open>k // 2\<close> (floor division,
  as \<open>div\<close> on \<open>int\<close>). \<open>None\<close> stands for a recursion that never reaches \<open>k = 0\<close>; the
  interpreter ends such a recursion with \<^verbatim>\<open>RecursionError\<close>.
\<close>

partial_function (option) solve :: "int \<Rightarrow> (int \<times> int) option" where
  "solve k =
     (if k = 0 then Some (0, 1)
      else
        Option.bind (solve (k div 2)) (\<lambda>(a, b).
          let c = a * (2 * b - a); d = a * a + b * b in
          if k mod 2 = 0 then Some (c, d) else Some (d, c + d)))"

declare solve.simps [code]

definition fib_fast_doubling :: "int \<Rightarrow> int outcome" where
  "fib_fast_doubling n =
     (case solve n of None \<Rightarrow> Raises RecursionError | Some r \<Rightarrow> Returns (fst r))"

text \<open>
  \<^verbatim>\<open>fib_binomial\<close>: the loop runs over \<open>k = 0, \<dots>, max_k\<close>; its state is
  \<^verbatim>\<open>(term, total)\<close>. \<^verbatim>\<open>term * numerator // denominator\<close> is floor division of the product,
  and raises \<^verbatim>\<open>ZeroDivisionError\<close> on a zero denominator.
\<close>

fun binomial_loop :: "int \<Rightarrow> int \<Rightarrow> int list \<Rightarrow> int \<times> int \<Rightarrow> (int \<times> int) outcome" where
  "binomial_loop n max_k [] (term, total') = Returns (term, total')"
| "binomial_loop n max_k (k # ks) (term, total') =
     (let total' = total' + term in
      if k < max_k then
        let numerator = (n - 2 * k - 1) * (n - 2 * k - 2);
            denominator = (k + 1) * (n - k - 1)
        in if denominator = 0 then Raises ZeroDivisionError
           else binomial_loop n max_k ks (term * numerator div denominator, total')
      else binomial_loop n max_k ks (term, total'))"

definition fib_binomial :: "int \<Rightarrow> int outcome" where
  "fib_binomial n =
     (if n = 0 then Returns 0
      else
        let max_k = (n - 1) div 2 in
        case binomial_loop n max_k [0..max_k] (1, 0) of
          Returns (term, total') \<Rightarrow> Returns total'
        | Raises e \<Rightarrow> Raises e
        | Diverges \<Rightarrow> Diverges)"

text \<open>
  \<^verbatim>\<open>fib_matrix_fast\<close>: a matrix is a list of two rows of two numbers. \<^verbatim>\<open>p & 1\<close> and
  \<^verbatim>\<open>p >>= 1\<close> are the bit operations on \<open>int\<close>.
\<close>

definition mat_mul :: "int list list \<Rightarrow> int list list \<Rightarrow> int list list" where
  "mat_mul a b =
     [[a ! 0 ! 0 * b ! 0 ! 0 + a ! 0 ! 1 * b ! 1 ! 0,
       a ! 0 ! 0 * b ! 0 ! 1 + a ! 0 ! 1 * b ! 1 ! 1],
      [a ! 1 ! 0 * b ! 0 ! 0 + a ! 1 ! 1 * b ! 1 ! 0,
       a ! 1 ! 0 * b ! 0 ! 1 + a ! 1 ! 1 * b ! 1 ! 1]]"

function mat_pow_loop :: "int list list \<Rightarrow> int list list \<Rightarrow> int \<Rightarrow> int list list" where
  "mat_pow_loop result base p =
     (if p > 0
      then mat_pow_loop (if p AND 1 \<noteq> 0 then mat_mul result base else result)
             (mat_mul base base) (drop_bit 1 p)
      else result)"
  by pat_completeness auto
termination
  by (relation "measure (\<lambda>(result, base, p). nat p)") (auto simp: drop_bit_eq_div)

definition mat_pow :: "int \<Rightarrow> int list list" where
  "mat_pow p = mat_pow_loop [[1, 0], [0, 1]] [[1, 1], [1, 0]] p"

definition fib_matrix_fast :: "int \<Rightarrow> int" where
  "fib_matrix_fast n = (if n = 0 then 0 else mat_pow n ! 0 ! 1)"

text \<open>The registry \<^verbatim>\<open>ALGORITHMS\<close> (a dictionary literal: its items come in the order
  written) and the input sizes of lab 1.\<close>

definition ALGORITHMS_lab1 :: "(string \<times> string \<times> (int \<Rightarrow> int outcome)) list" where
  "ALGORITHMS_lab1 =
     [(''iterative'', ''Iterative Linear'', \<lambda>n. Returns (fib_iterative n)),
      (''memoized'', ''Memoized Recursion'', fib_memoized),
      (''fast_doubling'', ''Fast Doubling'', fib_fast_doubling),
      (''binomial'', ''Binomial Sum'', fib_binomial),
      (''matrix_fast'', ''Fast Matrix Exponentiation'', \<lambda>n. Returns (fib_matrix_fast n))]"

definition SMALL_INPUTS_lab1 :: "int list" where
  "SMALL_INPUTS_lab1 = [5, 7, 10, 12, 15, 17, 20, 22, 25, 27, 30, 32, 35, 37, 40, 42, 45]"

definition LARGE_INPUTS_lab1 :: "int list" where
  "LARGE_INPUTS_lab1 =
     [501, 631, 794, 1000, 1259, 1585, 1995, 2512, 3162, 3981, 5012, 6310, 7943, 10000,
      12589, 15849]"

definition INPUT_SIZES_lab1 :: "int list" where
  "INPUT_SIZES_lab1 = SMALL_INPUTS_lab1 @ LARGE_INPUTS_lab1"

text \<open>Auxiliary notions of the proofs: the table the memoized loop has built once it
  knows the numbers up to \<open>j\<close>, the matrix \<open>Q\<^sup>m\<close>, and the diagonal sum of Pascal's
  triangle.\<close>

definition fib_table :: "int \<Rightarrow> (int \<rightharpoonup> int)" where
  "fib_table j = (\<lambda>k. if 0 \<le> k \<and> k \<le> j then Some (fibonacci (nat k)) else None)"

definition qmat :: "nat \<Rightarrow> int list list" where
  "qmat m = [[fibonacci (Suc m), fibonacci m], [fibonacci m, fibonacci (Suc m) - fibonacci m]]"

definition diag_sum :: "nat \<Rightarrow> nat" where
  "diag_sum n = (\<Sum>j\<le>n. (n - j) choose j)"

(*DEFS-END*)

section \<open>The Fibonacci implementations agree\<close>

lemma fibonacci_add:
  "fibonacci (Suc (n + k)) = fibonacci (Suc k) * fibonacci (Suc n) + fibonacci k * fibonacci n"
  by (induction n rule: fibonacci.induct) (simp_all add: algebra_simps)

lemma fibonacci_add_pred:
  "fibonacci (n + k) =
     fibonacci (Suc n) * fibonacci k + fibonacci n * (fibonacci (Suc k) - fibonacci k)"
proof -
  have "fibonacci (Suc (Suc (n + k))) = fibonacci (Suc (n + k)) + fibonacci (n + k)"
    by simp
  moreover have "fibonacci (Suc (Suc (n + k))) =
      fibonacci (Suc (Suc k)) * fibonacci (Suc n) + fibonacci (Suc k) * fibonacci n"
    using fibonacci_add [of n "Suc k"] by simp
  ultimately show ?thesis
    by (simp add: fibonacci_add algebra_simps)
qed

subsection \<open>The iterative loop\<close>

lemma fib_iterative_steps:
  "((\<lambda>(a, b). (b, a + b)) ^^ m) (fibonacci k, fibonacci (Suc k)) =
     (fibonacci (k + m), fibonacci (Suc (k + m)))"
  by (induction m) (simp_all add: add.commute)

lemma fib_iterative_correct: "fib_iterative (int m) = fibonacci m"
  using fib_iterative_steps [of m 0] by (simp add: fib_iterative_def)

subsection \<open>Fast doubling\<close>

lemma fibonacci_double: "fibonacci (2 * j) = fibonacci j * (2 * fibonacci (Suc j) - fibonacci j)"
proof -
  have "2 * j = j + j" by simp
  then show ?thesis
    using fibonacci_add_pred [of j j] by (simp only: algebra_simps)
qed

lemma fibonacci_double_Suc:
  "fibonacci (Suc (2 * j)) = fibonacci j * fibonacci j + fibonacci (Suc j) * fibonacci (Suc j)"
proof -
  have "2 * j = j + j" by simp
  then show ?thesis
    using fibonacci_add [of j j] by (simp only: algebra_simps)
qed

lemma solve_correct: "solve (int m) = Some (fibonacci m, fibonacci (Suc m))"
proof (induction m rule: less_induct)
  case (less m)
  show ?case
  proof (cases "m = 0")
    case True
    then show ?thesis by (simp add: solve.simps)
  next
    case False
    define j where "j = m div 2"
    have j: "j < m" "int m div 2 = int j"
      using False by (simp_all add: j_def)
    have ih: "solve (int j) = Some (fibonacci j, fibonacci (Suc j))"
      using less.IH [OF j(1)] .
    show ?thesis
    proof (cases "even m")
      case True
      then have m: "m = 2 * j" by (auto simp: j_def)
      have "int m mod 2 = 0" using True by presburger
      then show ?thesis
        using False
        by (subst solve.simps)
           (simp add: j(2) ih Let_def fibonacci_double [symmetric] fibonacci_double_Suc [symmetric]
             m [symmetric] del: fibonacci.simps)
    next
      case odd: False
      then have m: "m = Suc (2 * j)" by (auto simp: j_def elim: oddE)
      have "int m mod 2 \<noteq> 0" using odd by presburger
      then show ?thesis
        using False
        apply (subst solve.simps)
        apply (simp add: j(2) ih Let_def del: fibonacci.simps)
        apply (simp add: m fibonacci_double fibonacci_double_Suc)
        done
    qed
  qed
qed

lemma fib_fast_doubling_correct: "fib_fast_doubling (int m) = Returns (fibonacci m)"
  by (simp add: fib_fast_doubling_def solve_correct)

subsection \<open>Matrix powers\<close>

lemma mat_mul_qmat: "mat_mul (qmat a) (qmat b) = qmat (a + b)"
proof -
  have 1: "fibonacci (Suc (a + b)) =
      fibonacci (Suc a) * fibonacci (Suc b) + fibonacci a * fibonacci b"
    using fibonacci_add [of a b] by (simp add: algebra_simps)
  have 2: "fibonacci (a + b) =
      fibonacci (Suc a) * fibonacci b + fibonacci a * (fibonacci (Suc b) - fibonacci b)"
    by (rule fibonacci_add_pred)
  show ?thesis
    unfolding mat_mul_def qmat_def
    by (simp add: 1 2 algebra_simps del: fibonacci.simps)
qed

lemma mat_pow_loop_qmat:
  "0 \<le> p \<Longrightarrow> mat_pow_loop (qmat r) (qmat b) p = qmat (r + b * nat p)"
proof (induction "qmat r" "qmat b" p arbitrary: r b rule: mat_pow_loop.induct)
  case (1 p)
  show ?case
  proof (cases "p > 0")
    case False
    with 1(2) show ?thesis by (subst mat_pow_loop.simps) simp
  next
    case True
    have nonneg: "0 \<le> p div 2" using True by simp
    have "nat p = nat (2 * (p div 2) + p mod 2)" by simp
    also have "\<dots> = nat (2 * (p div 2)) + nat (p mod 2)"
      using nonneg by (intro nat_add_distrib) simp_all
    also have "nat (2 * (p div 2)) = 2 * nat (p div 2)"
      by (simp add: nat_mult_distrib)
    finally have half: "0 \<le> drop_bit 1 p" "nat p = 2 * nat (drop_bit 1 p) + nat (p mod 2)"
      using nonneg by (simp_all add: drop_bit_eq_div)
    show ?thesis
    proof (cases "p AND 1 \<noteq> 0")
      case odd: True
      then have p2: "p mod 2 = 1" by (simp add: and_one_eq)
      have "mat_pow_loop (qmat r) (qmat b) p =
            mat_pow_loop (qmat (r + b)) (qmat (b + b)) (drop_bit 1 p)"
        using True odd by (subst mat_pow_loop.simps) (simp add: mat_mul_qmat)
      also have "\<dots> = qmat (r + b + (b + b) * nat (drop_bit 1 p))"
        using True odd half(1)
        by (intro "1.hyps") (simp_all add: mat_mul_qmat)
      also have "r + b + (b + b) * nat (drop_bit 1 p) = r + b * nat p"
        using half(2) p2 by (simp add: algebra_simps)
      finally show ?thesis .
    next
      case even: False
      then have p2: "p mod 2 = 0" by (simp add: and_one_eq)
      have "mat_pow_loop (qmat r) (qmat b) p =
            mat_pow_loop (qmat r) (qmat (b + b)) (drop_bit 1 p)"
        using True even by (subst mat_pow_loop.simps) (simp add: mat_mul_qmat)
      also have "\<dots> = qmat (r + (b + b) * nat (drop_bit 1 p))"
        using True even half(1)
        by (intro "1.hyps") (simp_all add: mat_mul_qmat)
      also have "r + (b + b) * nat (drop_bit 1 p) = r + b * nat p"
        using half(2) p2 by (simp add: algebra_simps)
      finally show ?thesis .
    qed
  qed
qed

lemma mat_pow_correct: "mat_pow (int m) = qmat m"
proof -
  have "[[1, 0], [0, 1]] = qmat 0" "[[1, 1], [1, 0]] = qmat 1"
    by (simp_all add: qmat_def)
  then show ?thesis
    unfolding mat_pow_def using mat_pow_loop_qmat [of "int m" 0 1] by simp
qed

lemma fib_matrix_fast_correct: "fib_matrix_fast (int m) = fibonacci m"
  by (simp add: fib_matrix_fast_def mat_pow_correct qmat_def)

subsection \<open>The memoized loop\<close>

lemma memo_loop_known:
  assumes "0 \<le> k" "k \<le> j"
  shows "memo_loop (fib_table j) (S @ [k]) = memo_loop (fib_table j) S"
  using assms by (subst memo_loop.simps) (simp add: fib_table_def)

lemma fib_table_extend:
  assumes "1 \<le> j"
  shows "(fib_table j)(j + 1 \<mapsto> the (fib_table j j) + the (fib_table j (j - 1))) = fib_table (j + 1)"
proof
  fix k
  have "nat (j + 1) = Suc (Suc (nat (j - 1)))" "nat j = Suc (nat (j - 1))"
    using assms by simp_all
  then have "fibonacci (nat (j + 1)) = fibonacci (nat j) + fibonacci (nat (j - 1))"
    by simp
  then show "((fib_table j)(j + 1 \<mapsto> the (fib_table j j) + the (fib_table j (j - 1)))) k
      = fib_table (j + 1) k"
    using assms by (auto simp: fib_table_def)
qed

lemma memo_loop_next:
  assumes "1 \<le> j"
  shows "memo_loop (fib_table j) (S @ [j + 1]) = memo_loop (fib_table (j + 1)) S"
proof -
  have "memo_loop (fib_table j) (S @ [j + 1]) =
        memo_loop ((fib_table j)(j + 1 \<mapsto> the (fib_table j j) + the (fib_table j (j - 1)))) S"
    using assms by (subst memo_loop.simps) (simp add: fib_table_def Let_def)
  then show ?thesis
    by (simp only: fib_table_extend [OF assms])
qed

lemma memo_loop_resolves:
  assumes "1 \<le> j" "0 \<le> k"
  shows "memo_loop (fib_table j) (S @ [k]) = memo_loop (fib_table (max j k)) S"
  using assms
proof (induction "nat (k - j)" arbitrary: k j S rule: less_induct)
  case less
  consider "k \<le> j" | "k = j + 1" | "k = j + 2" | "j + 2 < k" by linarith
  then show ?case
  proof cases
    case 1
    then show ?thesis using less.prems by (simp add: memo_loop_known max_def)
  next
    case 2
    then show ?thesis using less.prems by (simp add: memo_loop_next max_def)
  next
    case 3
    have k: "k = j + 1 + 1" "max j k = j + 1 + 1" using 3 by simp_all
    have "memo_loop (fib_table j) (S @ [k]) = memo_loop (fib_table j) ((S @ [k]) @ [j + 1])"
      using 3 less.prems by (subst memo_loop.simps) (simp add: fib_table_def Let_def add.commute)
    also have "\<dots> = memo_loop (fib_table (j + 1)) (S @ [k])"
      using less.prems by (intro memo_loop_next)
    also have "\<dots> = memo_loop (fib_table (j + 1 + 1)) S"
      unfolding k(1) using less.prems by (intro memo_loop_next) simp
    finally show ?thesis unfolding k(2) .
  next
    case 4
    have "memo_loop (fib_table j) (S @ [k]) =
          memo_loop (fib_table j) ((S @ [k] @ [k - 1]) @ [k - 2])"
      using 4 less.prems by (subst memo_loop.simps) (simp add: fib_table_def Let_def)
    also have "\<dots> = memo_loop (fib_table (max j (k - 2))) (S @ [k] @ [k - 1])"
      using 4 less.prems by (intro less.hyps) simp_all
    also have "\<dots> = memo_loop (fib_table (k - 2)) ((S @ [k]) @ [(k - 2) + 1])"
      using 4 by (simp add: max_def)
    also have "\<dots> = memo_loop (fib_table ((k - 2) + 1)) (S @ [k])"
      using 4 less.prems by (intro memo_loop_next) simp
    also have "\<dots> = memo_loop (fib_table (k - 1)) (S @ [(k - 1) + 1])"
      by (simp add: algebra_simps)
    also have "\<dots> = memo_loop (fib_table ((k - 1) + 1)) S"
      using 4 less.prems by (intro memo_loop_next) simp
    finally show ?thesis using 4 by (simp add: max_def)
  qed
qed

lemma fib_memoized_correct: "fib_memoized (int m) = Returns (fibonacci m)"
proof (cases "m < 2")
  case True
  then have "m = 0 \<or> m = 1" by auto
  then show ?thesis by (auto simp: fib_memoized_def)
next
  case False
  have init: "[0 \<mapsto> 0, 1 \<mapsto> 1] = fib_table 1"
    by (rule ext) (auto simp: fib_table_def nat_eq_iff)
  have "memo_loop (fib_table 1) ([] @ [int m]) = memo_loop (fib_table (max 1 (int m))) []"
    by (rule memo_loop_resolves) simp_all
  also have "\<dots> = Some (fib_table (int m))"
    using False by (subst memo_loop.simps) (simp add: max_def)
  finally show ?thesis
    using False by (simp add: fib_memoized_def init fib_table_def)
qed

subsection \<open>The binomial sum\<close>

lemma diag_sum_shift: "diag_sum (Suc n) = 1 + (\<Sum>j\<le>n. (n - j) choose Suc j)"
  unfolding diag_sum_def by (subst sum.atMost_Suc_shift) simp

lemma diag_sum_rec: "diag_sum (Suc (Suc n)) = diag_sum (Suc n) + diag_sum n"
proof -
  have "(\<Sum>j\<le>Suc n. (Suc n - j) choose Suc j) = (\<Sum>j\<le>n. (Suc n - j) choose Suc j)"
    by simp
  also have "\<dots> = (\<Sum>j\<le>n. ((n - j) choose j) + ((n - j) choose Suc j))"
    by (intro sum.cong refl) (simp add: Suc_diff_le)
  also have "\<dots> = diag_sum n + (\<Sum>j\<le>n. (n - j) choose Suc j)"
    by (simp add: sum.distrib diag_sum_def)
  finally show ?thesis
    by (simp add: diag_sum_shift)
qed

lemma diag_sum_fibonacci: "int (diag_sum n) = fibonacci (Suc n)"
proof (induction n rule: fibonacci.induct)
  case 1
  show ?case by (simp add: diag_sum_def)
next
  case 2
  show ?case by (simp add: diag_sum_def)
next
  case (3 n)
  then show ?case by (simp add: diag_sum_rec)
qed

lemma diag_sum_half: "(\<Sum>j\<le>n div 2. (n - j) choose j) = diag_sum n"
  unfolding diag_sum_def
  by (intro sum.mono_neutral_left) (auto simp: binomial_eq_0)

lemma term_step_nat:
  assumes "k < m"
  shows "(Suc m choose k) * ((Suc m - k) * (m - k)) = (Suc k * Suc m) * (m choose Suc k)"
proof -
  obtain m' where m: "m = Suc m'" using assms by (cases m) auto
  have "(Suc m choose k) * (Suc m - k) = Suc m * (m choose k)"
    using binomial_absorb_comp [of "Suc m" k] by (simp add: mult.commute)
  moreover have "(m choose k) * (m - k) = m * (m' choose k)"
    using binomial_absorb_comp [of m k] by (simp add: mult.commute m)
  moreover have "Suc k * (m choose Suc k) = m * (m' choose k)"
    unfolding m using Suc_times_binomial_eq [of m' k] by (simp add: mult.commute)
  ultimately show ?thesis
    by (metis (no_types, lifting) mult.assoc mult.left_commute)
qed

lemma term_step_int:
  assumes "k < M" "M = (N - 1) div 2"
  shows "int ((N - 1 - k) choose k) * ((int N - 2 * int k - 1) * (int N - 2 * int k - 2))
           div ((int k + 1) * (int N - int k - 1)) = int ((N - 1 - Suc k) choose Suc k)"
    and "(int k + 1) * (int N - int k - 1) \<noteq> 0"
proof -
  define m where "m = N - 2 - k"
  have N: "N = m + k + 2" "k < m"
    using assms by (auto simp: m_def)
  have den: "(int k + 1) * (int N - int k - 1) = int (Suc k * Suc m)"
    by (simp add: N(1) algebra_simps)
  have num: "(int N - 2 * int k - 1) * (int N - 2 * int k - 2) = int ((Suc m - k) * (m - k))"
  proof -
    have "int (Suc m - k) = int N - 2 * int k - 1" "int (m - k) = int N - 2 * int k - 2"
      using N(2) by (simp_all add: N(1) of_nat_diff)
    then show ?thesis by (simp only: of_nat_mult)
  qed
  have "int ((N - 1 - k) choose k) * ((int N - 2 * int k - 1) * (int N - 2 * int k - 2))
      = int ((Suc m choose k) * ((Suc m - k) * (m - k)))"
    unfolding num by (simp add: N(1))
  also have "\<dots> = int (Suc k * Suc m) * int (m choose Suc k)"
    by (simp only: term_step_nat [OF N(2)] of_nat_mult)
  finally have "int ((N - 1 - k) choose k) * ((int N - 2 * int k - 1) * (int N - 2 * int k - 2))
      = int (Suc k * Suc m) * int (m choose Suc k)" .
  moreover have "int (Suc k * Suc m) \<noteq> 0" by (simp only: of_nat_eq_0_iff) simp
  moreover have "N - 1 - Suc k = m" by (simp add: N(1))
  ultimately show "int ((N - 1 - k) choose k) * ((int N - 2 * int k - 1) * (int N - 2 * int k - 2))
           div ((int k + 1) * (int N - int k - 1)) = int ((N - 1 - Suc k) choose Suc k)"
    unfolding den by (metis nonzero_mult_div_cancel_left)
  show "(int k + 1) * (int N - int k - 1) \<noteq> 0"
    unfolding den by (simp only: of_nat_eq_0_iff) simp
qed

lemma binomial_loop_correct:
  assumes "M = (N - 1) div 2" "k \<le> M"
  shows "\<exists>t. binomial_loop (int N) (int M) [int k..int M]
             (int ((N - 1 - k) choose k), int (\<Sum>j<k. (N - 1 - j) choose j))
           = Returns (t, int (\<Sum>j\<le>M. (N - 1 - j) choose j))"
  using assms(2)
proof (induction "M - k" arbitrary: k)
  case 0
  then have k: "k = M" by simp
  have "[int M..int M] = [int M]" by (simp add: upto.simps)
  then show ?case
    by (simp add: k lessThan_Suc_atMost [symmetric])
next
  case (Suc d)
  then have lt: "k < M" by simp
  have list: "[int k..int M] = int k # [int (Suc k)..int M]"
    using lt by (subst upto.simps) (simp add: add.commute)
  have ih: "\<exists>t. binomial_loop (int N) (int M) [int (Suc k)..int M]
             (int ((N - 1 - Suc k) choose Suc k), int (\<Sum>j<Suc k. (N - 1 - j) choose j))
           = Returns (t, int (\<Sum>j\<le>M. (N - 1 - j) choose j))"
    using Suc.hyps(2) lt by (intro Suc.hyps(1)) simp_all
  show ?case
    unfolding list
    using ih lt term_step_int [OF lt assms(1)]
    by (simp add: Let_def add.commute)
qed

lemma fib_binomial_correct: "fib_binomial (int m) = Returns (fibonacci m)"
proof (cases "m = 0")
  case True
  then show ?thesis by (simp add: fib_binomial_def)
next
  case False
  define M where "M = (m - 1) div 2"
  have max_k: "(int m - 1) div 2 = int M"
    using False by (simp add: M_def of_nat_diff flip: zdiv_int)
  obtain t where "binomial_loop (int m) (int M) [int 0..int M]
             (int ((m - 1 - 0) choose 0), int (\<Sum>j<0. (m - 1 - j) choose j))
           = Returns (t, int (\<Sum>j\<le>M. (m - 1 - j) choose j))"
    using binomial_loop_correct [OF M_def, of 0] by auto
  moreover have "int (\<Sum>j\<le>M. (m - 1 - j) choose j) = fibonacci m"
    using False diag_sum_half [of "m - 1"] diag_sum_fibonacci [of "m - 1"]
    by (simp add: M_def)
  ultimately show ?thesis
    using False by (simp add: fib_binomial_def max_k)
qed

subsection \<open>Agreement\<close>

text \<open>
  Claim C1. For every \<open>n \<ge> 0\<close> each of \<^verbatim>\<open>fib_iterative\<close>, \<^verbatim>\<open>fib_memoized\<close>,
  \<^verbatim>\<open>fib_fast_doubling\<close>, \<^verbatim>\<open>fib_binomial\<close> and \<^verbatim>\<open>fib_matrix_fast\<close> returns the \<open>n\<close>-th
  Fibonacci number (so they agree, and none raises or fails to come back); the same holds
  for the five entries of the registry; and on the sizes 5 and 10 every entry of the
  registry returns 5 and 55.
\<close>

theorem fib_implementations_agree:
  assumes "0 \<le> n"
  shows "fib_iterative n = fibonacci (nat n)
       \<and> fib_memoized n = Returns (fibonacci (nat n))
       \<and> fib_fast_doubling n = Returns (fibonacci (nat n))
       \<and> fib_binomial n = Returns (fibonacci (nat n))
       \<and> fib_matrix_fast n = fibonacci (nat n)
       \<and> map (\<lambda>(key, title, fn). fn n) ALGORITHMS_lab1
            = replicate 5 (Returns (fibonacci (nat n)))
       \<and> map (\<lambda>(key, title, fn). map fn [5, 10]) ALGORITHMS_lab1
            = replicate 5 [Returns 5, Returns 55]"
proof -
  obtain m where n: "n = int m"
    using assms by (metis nat_0_le)
  have five: "fibonacci 5 = 5" and ten: "fibonacci 10 = 55"
    by (simp_all add: eval_nat_numeral)
  have at5: "fib_iterative 5 = 5" "fib_memoized 5 = Returns 5" "fib_fast_doubling 5 = Returns 5"
      "fib_binomial 5 = Returns 5" "fib_matrix_fast 5 = 5"
    using fib_iterative_correct [of 5] fib_memoized_correct [of 5] fib_fast_doubling_correct [of 5]
      fib_binomial_correct [of 5] fib_matrix_fast_correct [of 5]
    by (simp_all only: five of_nat_numeral)
  have at10: "fib_iterative 10 = 55" "fib_memoized 10 = Returns 55"
      "fib_fast_doubling 10 = Returns 55" "fib_binomial 10 = Returns 55" "fib_matrix_fast 10 = 55"
    using fib_iterative_correct [of 10] fib_memoized_correct [of 10]
      fib_fast_doubling_correct [of 10] fib_binomial_correct [of 10] fib_matrix_fast_correct [of 10]
    by (simp_all only: ten of_nat_numeral)
  show ?thesis
    unfolding n ALGORITHMS_lab1_def
    by (simp add: fib_iterative_correct fib_memoized_correct fib_fast_doubling_correct
        fib_binomial_correct fib_matrix_fast_correct at5 at10 eval_nat_numeral
        del: fibonacci.simps)
qed

theorem fib_implementations_agree_witness:
  "(0::int) \<le> 10 \<and> fib_iterative 10 = 55 \<and> fib_memoized 10 = Returns 55
     \<and> fib_fast_doubling 10 = Returns 55 \<and> fib_binomial 10 = Returns 55
     \<and> fib_matrix_fast 10 = 55"
proof -
  have "fibonacci (nat 10) = 55" by (simp add: eval_nat_numeral)
  then show ?thesis
    using fib_implementations_agree [of 10] by simp
qed

subsection \<open>Termination of the two loops that are not bounded by a counter\<close>

text \<open>A recursion of \<^verbatim>\<open>solve\<close> that comes back started from a non-negative argument: on a
  negative one \<^verbatim>\<open>k // 2\<close> never reaches 0.\<close>

lemma solve_returns_nonneg:
  assumes "solve k = Some r"
  shows "0 \<le> k"
proof (rule solve.raw_induct [where P = "\<lambda>k r. 0 \<le> k", OF _ assms], goal_cases)
  case (1 solve' k r)
  show ?case
  proof (cases "k = 0")
    case True
    then show ?thesis by simp
  next
    case False
    then obtain r' where "solve' (k div 2) = Some r'"
      using 1(2) by (auto simp: bind_eq_Some_conv)
    then have "0 \<le> k div 2" by (rule 1(1))
    then show ?thesis by simp
  qed
qed

lemma fib_fast_doubling_negative: "n < 0 \<Longrightarrow> fib_fast_doubling n = Raises RecursionError"
  using solve_returns_nonneg [of n] by (cases "solve n") (auto simp: fib_fast_doubling_def)

text \<open>
  Claim C10. For every \<open>n \<ge> 0\<close> the stack loop of \<^verbatim>\<open>fib_memoized\<close>, started as the source
  starts it (the dictionary \<open>{0: 0, 1: 1}\<close>, the stack \<open>[n]\<close>), empties its stack and ends,
  leaving the table of the Fibonacci numbers up to \<open>max 1 n\<close>; and the recursion of
  \<^verbatim>\<open>solve\<close> on \<^verbatim>\<open>k // 2\<close> reaches 0 and returns. So \<^verbatim>\<open>fib_memoized\<close> comes back and
  \<^verbatim>\<open>fib_fast_doubling\<close> does not exhaust the recursion.
\<close>

theorem fib_loops_terminate:
  assumes "0 \<le> n"
  shows "memo_loop [0 \<mapsto> 0, 1 \<mapsto> 1] [n] = Some (fib_table (max 1 n))
       \<and> solve n = Some (fibonacci (nat n), fibonacci (Suc (nat n)))
       \<and> fib_memoized n \<noteq> Diverges
       \<and> fib_fast_doubling n \<noteq> Raises RecursionError"
proof -
  obtain m where n: "n = int m"
    using assms by (metis nat_0_le)
  have init: "[0 \<mapsto> 0, 1 \<mapsto> 1] = fib_table 1"
    by (rule ext) (auto simp: fib_table_def nat_eq_iff)
  have "memo_loop (fib_table 1) ([] @ [n]) = memo_loop (fib_table (max 1 n)) []"
    using assms by (intro memo_loop_resolves) simp_all
  also have "\<dots> = Some (fib_table (max 1 n))"
    by (subst memo_loop.simps) simp
  finally have "memo_loop [0 \<mapsto> 0, 1 \<mapsto> 1] [n] = Some (fib_table (max 1 n))"
    by (simp add: init)
  then show ?thesis
    by (simp add: n solve_correct fib_memoized_correct fib_fast_doubling_correct
        del: fibonacci.simps)
qed

theorem fib_loops_terminate_witness:
  "(0::int) \<le> 6 \<and> memo_loop [0 \<mapsto> 0, 1 \<mapsto> 1] [6] \<noteq> None \<and> solve 6 = Some (8, 13)
     \<and> fib_memoized 6 \<noteq> Diverges \<and> fib_fast_doubling 6 \<noteq> Raises RecursionError"
proof -
  have "fibonacci (nat 6) = 8" "fibonacci (Suc (nat 6)) = 13"
    by (simp_all add: eval_nat_numeral)
  then show ?thesis
    using fib_loops_terminate [of 6] by simp
qed

section \<open>Properties of the timing harness\<close>

lemma keep_best_three:
  fixes e1 :: "'t::linorder"
  shows "keep_best (keep_best (keep_best None e1) e2) e3 = Some (min e1 (min e2 e3))"
  by (auto simp: keep_best_def min_def)

lemma trial_lab1_returns:
  assumes "fn n = Returns y"
  shows "trial_lab1 clk fn n (best, w) =
           Returns (keep_best best (clk (ticks w + 1) - clk (ticks w)),
                w\<lparr>ticks := ticks w + 2, calls := calls w @ [n]\<rparr>)"
  using assms by (simp add: trial_lab1_def perf_counter_def)

lemma trials_lab1_three:
  assumes "fn n = Returns y"
  shows "trials_lab1 clk fn n (Suc (Suc (Suc 0))) (best, w) =
           Returns (keep_best (keep_best (keep_best best (clk (ticks w + 1) - clk (ticks w)))
                  (clk (ticks w + 3) - clk (ticks w + 2))) (clk (ticks w + 5) - clk (ticks w + 4)),
                w\<lparr>ticks := ticks w + 6, calls := calls w @ [n, n, n]\<rparr>)"
  using assms by (simp add: trial_lab1_returns [where y = y] eval_nat_numeral)

lemma time_run_lab1_returns:
  fixes clk :: "nat \<Rightarrow> 't::{minus,linorder}"
  assumes "fn n = Returns y"
  shows "time_run_lab1 clk fn n w =
           Returns (Some (min (clk (ticks w + 1) - clk (ticks w))
                       (min (clk (ticks w + 3) - clk (ticks w + 2))
                            (clk (ticks w + 5) - clk (ticks w + 4)))),
                w\<lparr>ticks := ticks w + 6, calls := calls w @ [n, n, n]\<rparr>)"
proof -
  have "time_run_lab1 clk fn n w = trials_lab1 clk fn n (Suc (Suc (Suc 0))) (None, w)"
    by (simp add: time_run_lab1_def REPEATS_def numeral_3_eq_3)
  then show ?thesis
    by (simp only: trials_lab1_three [where fn = fn and y = y, OF assms] keep_best_three)
qed

lemma trial_lab1_outcome:
  "trial_lab1 clk fn n (best, w) =
     (case fn n of
        Returns y \<Rightarrow>
          Returns (keep_best best (clk (ticks w + 1) - clk (ticks w)),
                   w\<lparr>ticks := ticks w + 2, calls := calls w @ [n]\<rparr>)
      | Raises e \<Rightarrow> Raises e
      | Diverges \<Rightarrow> Diverges)"
  by (simp add: trial_lab1_def perf_counter_def split: outcome.splits)

lemma time_run_lab1_outcome:
  fixes clk :: "nat \<Rightarrow> 't::{minus,linorder}"
  shows "time_run_lab1 clk fn n w =
     (case fn n of
        Returns y \<Rightarrow>
          Returns (Some (min (clk (ticks w + 1) - clk (ticks w))
                          (min (clk (ticks w + 3) - clk (ticks w + 2))
                               (clk (ticks w + 5) - clk (ticks w + 4)))),
                   w\<lparr>ticks := ticks w + 6, calls := calls w @ [n, n, n]\<rparr>)
      | Raises e \<Rightarrow> Raises e
      | Diverges \<Rightarrow> Diverges)"
proof (cases "fn n")
  case (Returns y)
  then show ?thesis by (simp add: time_run_lab1_returns [where y = y])
next
  case (Raises e)
  then show ?thesis
    by (simp add: time_run_lab1_def REPEATS_def eval_nat_numeral trial_lab1_outcome)
next
  case Diverges
  then show ?thesis
    by (simp add: time_run_lab1_def REPEATS_def eval_nat_numeral trial_lab1_outcome)
qed

lemma trial_lab2_outcome:
  "trial_lab2 clk srt arr (best, w) =
     (case srt (length (heap w)) (heap w @ [heap w ! arr]) of
        Returns r \<Rightarrow>
          Returns (keep_best best (clk (ticks w + 1) - clk (ticks w)),
                   w\<lparr>ticks := ticks w + 2, calls := calls w @ [heap w ! arr], heap := snd r\<rparr>)
      | Raises e \<Rightarrow> Raises e
      | Diverges \<Rightarrow> Diverges)"
  by (simp add: trial_lab2_def perf_counter_def copy_list_def split: outcome.splits prod.splits)

lemma time_run_lab2_outcome:
  fixes clk :: "nat \<Rightarrow> 't::{minus,linorder}"
  shows "time_run_lab2 clk srt arr v =
     (case srt (length (heap v)) (heap v @ [heap v ! arr]) of
        Raises e \<Rightarrow> Raises e
      | Diverges \<Rightarrow> Diverges
      | Returns (r1, h1) \<Rightarrow>
          (case srt (length h1) (h1 @ [h1 ! arr]) of
             Raises e \<Rightarrow> Raises e
           | Diverges \<Rightarrow> Diverges
           | Returns (r2, h2) \<Rightarrow>
               (case srt (length h2) (h2 @ [h2 ! arr]) of
                  Raises e \<Rightarrow> Raises e
                | Diverges \<Rightarrow> Diverges
                | Returns (r3, h3) \<Rightarrow>
                    Returns (Some (min (clk (ticks v + 1) - clk (ticks v))
                                    (min (clk (ticks v + 3) - clk (ticks v + 2))
                                         (clk (ticks v + 5) - clk (ticks v + 4)))),
                             v\<lparr>ticks := ticks v + 6,
                               calls := calls v @ [heap v ! arr, h1 ! arr, h2 ! arr],
                               heap := h3\<rparr>))))"
proof -
  have run: "time_run_lab2 clk srt arr v = trials_lab2 clk srt arr (Suc (Suc (Suc 0))) (None, v)"
    by (simp add: time_run_lab2_def REPEATS_def numeral_3_eq_3)
  show ?thesis
    unfolding run
    by (simp add: trial_lab2_outcome keep_best_three [symmetric] eval_nat_numeral
        split: outcome.splits prod.splits)
qed

text \<open>
  Claim C3, as the code has it. What \<^verbatim>\<open>time_run\<close> does is fixed by the outcomes of the
  algorithm's invocations, for every algorithm, argument, clock and world.

  Lab 1: when \<open>fn n\<close> returns, \<^verbatim>\<open>time_run\<close> has read the clock six times, invoked \<open>fn\<close> on
  \<open>n\<close> exactly three times, and returns the minimum of the three elapsed durations
  \<open>clk (t + 1) - clk t\<close>, \<open>clk (t + 3) - clk (t + 2)\<close>, \<open>clk (t + 5) - clk (t + 4)\<close>, where \<open>t\<close>
  readings had been taken before; the returned value \<open>y\<close> occurs nowhere in the result.
  When \<open>fn n\<close> raises, \<^verbatim>\<open>time_run\<close> raises the same exception, and when it never comes
  back, neither does \<^verbatim>\<open>time_run\<close>.

  Lab 2: the first invocation is on a new object (address \<open>length (heap v)\<close>) holding the
  elements of \<open>arr\<close>; it leaves a heap \<open>h1\<close>; the second is on a new copy of what \<open>arr\<close>
  holds in \<open>h1\<close>, and leaves \<open>h2\<close>; the third likewise, and leaves \<open>h3\<close>, the heap of the
  final world. The addresses \<open>r1\<close>, \<open>r2\<close>, \<open>r3\<close> the algorithm returns occur nowhere in the
  result. The first invocation that raises or never comes back ends the run: no later
  invocation is made.

  Subtraction and order of the readings are those of any linearly ordered type, so
  rounding in the subtraction is covered.
\<close>

theorem time_run_three_trials_minimum:
  fixes clk :: "nat \<Rightarrow> 't::{minus,linorder}"
  shows "time_run_lab1 clk fn n w =
     (case fn n of
        Returns y \<Rightarrow>
          Returns (Some (min (clk (ticks w + 1) - clk (ticks w))
                          (min (clk (ticks w + 3) - clk (ticks w + 2))
                               (clk (ticks w + 5) - clk (ticks w + 4)))),
                   w\<lparr>ticks := ticks w + 6, calls := calls w @ [n, n, n]\<rparr>)
      | Raises e \<Rightarrow> Raises e
      | Diverges \<Rightarrow> Diverges)
   \<and> time_run_lab2 clk srt arr v =
     (case srt (length (heap v)) (heap v @ [heap v ! arr]) of
        Raises e \<Rightarrow> Raises e
      | Diverges \<Rightarrow> Diverges
      | Returns (r1, h1) \<Rightarrow>
          (case srt (length h1) (h1 @ [h1 ! arr]) of
             Raises e \<Rightarrow> Raises e
           | Diverges \<Rightarrow> Diverges
           | Returns (r2, h2) \<Rightarrow>
               (case srt (length h2) (h2 @ [h2 ! arr]) of
                  Raises e \<Rightarrow> Raises e
                | Diverges \<Rightarrow> Diverges
                | Returns (r3, h3) \<Rightarrow>
                    Returns (Some (min (clk (ticks v + 1) - clk (ticks v))
                                    (min (clk (ticks v + 3) - clk (ticks v + 2))
                                         (clk (ticks v + 5) - clk (ticks v + 4)))),
                             v\<lparr>ticks := ticks v + 6,
                               calls := calls v @ [heap v ! arr, h1 ! arr, h2 ! arr],
                               heap := h3\<rparr>))))"
  by (simp only: time_run_lab1_outcome time_run_lab2_outcome)

text \<open>An instance: a clock whose three durations are 5, 2 and 9; in lab 2 an algorithm
  that reverses its argument in place, so that the three copies show in the heap.\<close>

theorem time_run_three_trials_minimum_witness:
  "time_run_lab1 ((!) [0, 5, 6, 8, 20, 29 :: int]) (\<lambda>n. Returns (fib_iterative n)) 10
       \<lparr>ticks = 0, calls = [], heap = []\<rparr> =
     Returns (Some 2, \<lparr>ticks = 6, calls = [10, 10, 10], heap = []\<rparr>)
   \<and> time_run_lab2 ((!) [0, 5, 6, 8, 20, 29 :: int]) (\<lambda>a h. Returns (a, h[a := rev (h ! a)])) 0
       \<lparr>ticks = 0, calls = [], heap = [[3, 1, 2]]\<rparr> =
     Returns (Some 2, \<lparr>ticks = 6, calls = [[3, 1, 2], [3, 1, 2], [3, 1, 2]],
                heap = [[3, 1, 2], [2, 1, 3], [2, 1, 3], [2, 1, 3]]\<rparr>)"
  using time_run_three_trials_minimum [where clk = "(!) [0, 5, 6, 8, 20, 29 :: int]"
      and fn = "\<lambda>n. Returns (fib_iterative n)" and n = 10
      and srt = "\<lambda>a h. Returns (a, h[a := rev (h ! a)])"
      and w = "\<lparr>ticks = 0, calls = [], heap = []\<rparr>" and arr = 0
      and v = "\<lparr>ticks = 0, calls = [], heap = [[3, 1, 2]]\<rparr>"]
  by simp

text \<open>
  The claim as the specification words it, for every algorithm and every input, does
  not hold: \<^verbatim>\<open>time_run\<close> returns no duration when the algorithm raises. The registered
  \<^verbatim>\<open>fib_fast_doubling\<close> on the argument \<open>-1\<close> recurses on \<^verbatim>\<open>-1 // 2 = -1\<close> without end, the
  interpreter raises \<^verbatim>\<open>RecursionError\<close>, and \<^verbatim>\<open>time_run\<close> lets it through.
\<close>

theorem time_run_raising_algorithm_counterexample:
  "time_run_lab1 int fib_fast_doubling (- 1) \<lparr>ticks = 0, calls = [], heap = []\<rparr>
     = Raises RecursionError"
  by (simp add: time_run_lab1_outcome fib_fast_doubling_negative)

end
